theory Spec2Isabelle
  imports Complex_Main
begin

section \<open>Strings\<close>

text \<open>
  Record fields and queries are modelled as \<^typ>\<open>string\<close>, read as sequences of code
  points below 256 (Latin-1).  On that range the built-in string operations used by the
  managers are as follows.

  \<^verbatim>\<open>String.prototype.toLowerCase\<close> maps the letters A-Z (65-90) and the Latin-1 capitals
  U+00C0-U+00DE other than the multiplication sign U+00D7 to the code point 32 above,
  and leaves every other code point alone.
\<close>

definition toLowerChar :: "char \<Rightarrow> char" where
  "toLowerChar c =
     (let n = (of_char c :: nat) in
      if (65 \<le> n \<and> n \<le> 90) \<or> (192 \<le> n \<and> n \<le> 222 \<and> n \<noteq> 215)
      then char_of (n + 32) else c)"

definition toLowerCase :: "string \<Rightarrow> string" where
  "toLowerCase s = map toLowerChar s"

text \<open>
  \<^verbatim>\<open>s.includes(q)\<close>: does \<open>q\<close> occur in \<open>s\<close> as a contiguous run?  The scan tries every
  start position from the left.
\<close>

fun startsWith :: "string \<Rightarrow> string \<Rightarrow> bool" where
  "startsWith s [] = True"
| "startsWith [] (q # qs) = False"
| "startsWith (c # cs) (q # qs) = (c = q \<and> startsWith cs qs)"

fun str_includes :: "string \<Rightarrow> string \<Rightarrow> bool" where
  "str_includes [] q = (q = [])"
| "str_includes (c # cs) q = (startsWith (c # cs) q \<or> str_includes cs q)"

section \<open>Data model (lib/types)\<close>

record CustomField =
  cf_label :: string
  cf_value :: string

datatype Status = Active | Inactive

text \<open>
  The three interfaces share \<^verbatim>\<open>id\<close>, \<^verbatim>\<open>tags?\<close> and \<^verbatim>\<open>customFields?\<close>; an optional
  property is an \<^typ>\<open>'a option\<close>, with \<^const>\<open>None\<close> for \<^verbatim>\<open>undefined\<close>.  The \<^verbatim>\<open>status\<close> of an
  API key is the field \<open>key_status\<close>, that of a password is \<open>status\<close>.
\<close>

record Item =
  item_id :: string
  tags :: "string list option"
  customFields :: "CustomField list option"

record ApiKey = Item +
  modelName :: string
  apiKey :: string
  key_status :: Status

record Password = Item +
  appName :: string
  username :: string
  password :: string
  status :: Status

record Note = Item +
  title :: string
  content :: string

section \<open>Search and category filter\<close>

text \<open>
  \<^verbatim>\<open>(x.tags && x.tags.some(tag => P(tag)))\<close>: an absent tag array is falsy, an empty one
  has no element satisfying \<open>P\<close>.
\<close>

definition tags_some :: "(string \<Rightarrow> bool) \<Rightarrow> string list option \<Rightarrow> bool" where
  "tags_some P ts = (case ts of None \<Rightarrow> False | Some xs \<Rightarrow> list_ex P xs)"

text \<open>One comparison of the filters: both sides are lower-cased before \<^verbatim>\<open>includes\<close>.\<close>

definition lc_includes :: "string \<Rightarrow> string \<Rightarrow> bool" where
  "lc_includes searchQuery field = str_includes (toLowerCase field) (toLowerCase searchQuery)"

text \<open>PasswordManager, \<^verbatim>\<open>filteredPasswords\<close>: the two conjuncts of the filter callback.\<close>

definition searchMatch :: "string \<Rightarrow> Password \<Rightarrow> bool" where
  "searchMatch searchQuery p =
     (lc_includes searchQuery (appName p) \<or>
      lc_includes searchQuery (username p) \<or>
      tags_some (lc_includes searchQuery) (tags p))"

definition platformMatch :: "string \<Rightarrow> Password \<Rightarrow> bool" where
  "platformMatch platformFilter p = (platformFilter = ''all'' \<or> appName p = platformFilter)"

definition filteredPasswords :: "Password list \<Rightarrow> string \<Rightarrow> string \<Rightarrow> Password list" where
  "filteredPasswords passwords searchQuery platformFilter =
     filter (\<lambda>p. searchMatch searchQuery p \<and> platformMatch platformFilter p) passwords"

text \<open>ApiKeyManager, \<^verbatim>\<open>filteredKeys\<close>.\<close>

definition keyMatch :: "string \<Rightarrow> ApiKey \<Rightarrow> bool" where
  "keyMatch searchQuery k =
     (lc_includes searchQuery (modelName k) \<or>
      tags_some (lc_includes searchQuery) (tags k))"

definition filteredKeys :: "ApiKey list \<Rightarrow> string \<Rightarrow> ApiKey list" where
  "filteredKeys apiKeys searchQuery = filter (keyMatch searchQuery) apiKeys"

text \<open>NotesManager, \<^verbatim>\<open>filteredNotes\<close>.\<close>

definition noteMatch :: "string \<Rightarrow> Note \<Rightarrow> bool" where
  "noteMatch searchQuery n =
     (lc_includes searchQuery (title n) \<or>
      lc_includes searchQuery (content n) \<or>
      tags_some (lc_includes searchQuery) (tags n))"

definition filteredNotes :: "Note list \<Rightarrow> string \<Rightarrow> Note list" where
  "filteredNotes notes searchQuery = filter (noteMatch searchQuery) notes"


section \<open>Tags input\<close>

text \<open>
  \<^verbatim>\<open>s.split(',')\<close> scans the string once; every comma closes the current segment, and
  the end of the string closes the last one (so the empty string gives one empty segment).
\<close>

fun split_from :: "string \<Rightarrow> string \<Rightarrow> string list" where
  "split_from seg [] = [rev seg]"
| "split_from seg (c # cs) =
     (if c = CHR '','' then rev seg # split_from [] cs else split_from (c # seg) cs)"

definition split_commas :: "string \<Rightarrow> string list" where
  "split_commas s = split_from [] s"

text \<open>
  \<^verbatim>\<open>String.prototype.trim\<close> strips white space and line terminators from both ends; below
  256 these are TAB, LF, VT, FF, CR, SPACE and NO-BREAK SPACE.
\<close>

definition isWhiteSpace :: "char \<Rightarrow> bool" where
  "isWhiteSpace c = ((of_char c :: nat) \<in> {9, 10, 11, 12, 13, 32, 160})"

definition trim :: "string \<Rightarrow> string" where
  "trim s = rev (dropWhile isWhiteSpace (rev (dropWhile isWhiteSpace s)))"

text \<open>
  \<^verbatim>\<open>values.tags ? values.tags.split(',').map(tag => tag.trim()).filter(Boolean) : []\<close>,
  the same expression in the three \<^verbatim>\<open>handleFormSubmit\<close>.  \<^verbatim>\<open>undefined\<close> and the empty
  string are falsy; \<^verbatim>\<open>Boolean\<close> keeps the non-empty strings.
\<close>

definition tagsArray :: "string option \<Rightarrow> string list" where
  "tagsArray t =
     (case t of
        None \<Rightarrow> []
      | Some s \<Rightarrow> if s = [] then [] else filter (\<lambda>tag. tag \<noteq> []) (map trim (split_commas s)))"

text \<open>
  The wording of the specification: split on commas, trim each segment, drop the empty
  segments.  \<open>join_commas\<close> puts the commas back between segments.
\<close>

fun join_commas :: "string list \<Rightarrow> string" where
  "join_commas [] = []"
| "join_commas [seg] = seg"
| "join_commas (seg # seg' # segs) = seg @ CHR '','' # join_commas (seg' # segs)"

definition spec_tags :: "string \<Rightarrow> string list" where
  "spec_tags s = filter (\<lambda>seg. seg \<noteq> []) (map trim (split_commas s))"

section \<open>Form validation\<close>

text \<open>
  The values a form hands to its schema.  \<^verbatim>\<open>status\<close> is whatever string the form holds
  until the schema has accepted it; \<^verbatim>\<open>tags\<close> and \<^verbatim>\<open>customFields\<close> are optional.
\<close>

record FormValues =
  v_tags :: "string option"
  v_customFields :: "CustomField list option"

record PasswordValues = FormValues +
  v_appName :: string
  v_username :: string
  v_password :: string
  v_status :: string

record ApiKeyValues = FormValues +
  v_modelName :: string
  v_apiKey :: string
  v_keyStatus :: string

record NoteValues = FormValues +
  v_title :: string
  v_content :: string

text \<open>
  An issue is keyed by the path of the field it belongs to.  Its message is the one the
  schema gives, or the library's own for a value outside an enum.
\<close>

datatype FieldPath = Field string | CustomFieldLabel nat | CustomFieldValue nat

datatype Message = Msg string | InvalidEnumValue string

type_synonym FieldErrors = "(FieldPath \<times> Message) list"

text \<open>\<^verbatim>\<open>z.string().min(1, msg)\<close> on a string.\<close>

definition string_min1 :: "FieldPath \<Rightarrow> string \<Rightarrow> string \<Rightarrow> FieldErrors" where
  "string_min1 path msg s = (if length s < 1 then [(path, Msg msg)] else [])"

text \<open>\<^verbatim>\<open>z.enum(['Active', 'Inactive'])\<close>.\<close>

definition enum_status :: "FieldPath \<Rightarrow> string \<Rightarrow> FieldErrors" where
  "enum_status path s =
     (if s = ''Active'' \<or> s = ''Inactive'' then [] else [(path, InvalidEnumValue s)])"

text \<open>
  \<^verbatim>\<open>z.array(z.object({label: z.string().min(1, ...), value: z.string().min(1, ...)})).optional()\<close>:
  every element is checked, at its index.
\<close>

fun customFields_from :: "nat \<Rightarrow> CustomField list \<Rightarrow> FieldErrors" where
  "customFields_from i [] = []"
| "customFields_from i (f # fs) =
     string_min1 (CustomFieldLabel i) ''Label is required'' (cf_label f) @
     string_min1 (CustomFieldValue i) ''Value is required'' (cf_value f) @
     customFields_from (Suc i) fs"

definition customFields_optional :: "CustomField list option \<Rightarrow> FieldErrors" where
  "customFields_optional cfs = (case cfs of None \<Rightarrow> [] | Some fs \<Rightarrow> customFields_from 0 fs)"

definition passwordSchema_issues :: "PasswordValues \<Rightarrow> FieldErrors" where
  "passwordSchema_issues v =
     string_min1 (Field ''appName'') ''App/Platform name is required'' (v_appName v) @
     string_min1 (Field ''username'') ''Username/Email is required'' (v_username v) @
     string_min1 (Field ''password'') ''Password is required'' (v_password v) @
     enum_status (Field ''status'') (v_status v) @
     customFields_optional (v_customFields v)"

definition apiKeySchema_issues :: "ApiKeyValues \<Rightarrow> FieldErrors" where
  "apiKeySchema_issues v =
     string_min1 (Field ''modelName'') ''Model name is required'' (v_modelName v) @
     string_min1 (Field ''apiKey'') ''API Key is required'' (v_apiKey v) @
     enum_status (Field ''status'') (v_keyStatus v) @
     customFields_optional (v_customFields v)"

definition noteSchema_issues :: "NoteValues \<Rightarrow> FieldErrors" where
  "noteSchema_issues v =
     string_min1 (Field ''title'') ''Title is required'' (v_title v) @
     string_min1 (Field ''content'') ''Content is required'' (v_content v) @
     customFields_optional (v_customFields v)"

text \<open>The resolver: the issues, or the accepted values when there is none.\<close>

definition resolve :: "('v \<Rightarrow> FieldErrors) \<Rightarrow> 'v \<Rightarrow> FieldErrors + 'v" where
  "resolve issues v = (if issues v = [] then Inr v else Inl (issues v))"

definition passwordSchema :: "PasswordValues \<Rightarrow> FieldErrors + PasswordValues" where
  "passwordSchema = resolve passwordSchema_issues"

definition apiKeySchema :: "ApiKeyValues \<Rightarrow> FieldErrors + ApiKeyValues" where
  "apiKeySchema = resolve apiKeySchema_issues"

definition noteSchema :: "NoteValues \<Rightarrow> FieldErrors + NoteValues" where
  "noteSchema = resolve noteSchema_issues"

section \<open>Dashboard: tag and platform frequencies\<close>

text \<open>
  \<^verbatim>\<open>allTags\<close> and \<^verbatim>\<open>allPlatforms\<close> are object literals used as tables.  A table is
  modelled by its own properties in the order of their creation.
  \<^verbatim>\<open>t[k] = (t[k] || 0) + 1\<close> adds one to the property \<open>k\<close>, or creates it with value 1
  after all the others.  (This is so for a key that is not the name of a property the
  object inherits; \<open>inheritedNames\<close> lists those.)
\<close>

type_synonym Counts = "(string \<times> nat) list"

fun increment :: "string \<Rightarrow> Counts \<Rightarrow> Counts" where
  "increment k [] = [(k, 1)]"
| "increment k ((k', n) # rest) =
     (if k' = k then (k', n + 1) # rest else (k', n) # increment k rest)"

definition inheritedNames :: "string list" where
  "inheritedNames =
     [''constructor'', ''__proto__'', ''hasOwnProperty'', ''isPrototypeOf'',
      ''propertyIsEnumerable'', ''toLocaleString'', ''toString'', ''valueOf'',
      ''__defineGetter__'', ''__defineSetter__'', ''__lookupGetter__'', ''__lookupSetter__'']"

text \<open>\<^verbatim>\<open>item.tags?.forEach(...)\<close>: nothing to visit when the property is absent.\<close>

definition tagsOf :: "string list option \<Rightarrow> string list" where
  "tagsOf ts = (case ts of None \<Rightarrow> [] | Some xs \<Rightarrow> xs)"

text \<open>
  \<^verbatim>\<open>[...apiKeys, ...passwords, ...notes].forEach(item => item.tags?.forEach(tag => ...))\<close>
\<close>

definition allTags :: "ApiKey list \<Rightarrow> Password list \<Rightarrow> Note list \<Rightarrow> Counts" where
  "allTags apiKeys passwords notes =
     foldl (\<lambda>tbl itemTags. foldl (\<lambda>tbl' tag. increment tag tbl') tbl (tagsOf itemTags)) []
       (map tags apiKeys @ map tags passwords @ map tags notes)"

definition allPlatforms :: "Password list \<Rightarrow> Counts" where
  "allPlatforms passwords = foldl (\<lambda>tbl item. increment (appName item) tbl) [] passwords"

text \<open>
  \<^verbatim>\<open>Object.entries\<close> lists the properties whose key is an array index first, by ascending
  index, and then the others in the order of their creation.  An array index is the
  canonical decimal form of an integer from 0 to \<open>2\<^sup>3\<^sup>2 - 2\<close>.
\<close>

definition isDigit :: "char \<Rightarrow> bool" where
  "isDigit c = (48 \<le> (of_char c :: nat) \<and> (of_char c :: nat) \<le> 57)"

definition digitsValue :: "string \<Rightarrow> nat" where
  "digitsValue s = foldl (\<lambda>acc c. 10 * acc + (of_char c - 48)) 0 s"

definition arrayIndex :: "string \<Rightarrow> nat option" where
  "arrayIndex s =
     (if s \<noteq> [] \<and> list_all isDigit s \<and> (s = ''0'' \<or> hd s \<noteq> CHR ''0'') \<and>
         digitsValue s \<le> 4294967294
      then Some (digitsValue s) else None)"

definition indexValue :: "string \<Rightarrow> nat" where
  "indexValue s = (case arrayIndex s of None \<Rightarrow> 0 | Some n \<Rightarrow> n)"

definition enumerationOrder :: "('e \<Rightarrow> string) \<Rightarrow> 'e list \<Rightarrow> 'e list" where
  "enumerationOrder key es =
     sort_key (\<lambda>e. indexValue (key e)) (filter (\<lambda>e. arrayIndex (key e) \<noteq> None) es) @
     filter (\<lambda>e. arrayIndex (key e) = None) es"

definition Object_entries :: "Counts \<Rightarrow> (string \<times> nat) list" where
  "Object_entries tbl = enumerationOrder fst tbl"

text \<open>
  \<^verbatim>\<open>Object.entries(counts).map(([name, value]) => ({name, value}))\<close>
  \<^verbatim>\<open>.sort((a, b) => b.value - a.value).slice(0, 5)\<close>: the sort is stable and orders by
  descending value, which is ascending order of the negated value.
\<close>

definition chartData :: "Counts \<Rightarrow> (string \<times> nat) list" where
  "chartData counts = take 5 (sort_key (\<lambda>e. - int (snd e)) (Object_entries counts))"

definition tagChartData :: "ApiKey list \<Rightarrow> Password list \<Rightarrow> Note list \<Rightarrow> (string \<times> nat) list" where
  "tagChartData apiKeys passwords notes = chartData (allTags apiKeys passwords notes)"

definition platformChartData :: "Password list \<Rightarrow> (string \<times> nat) list" where
  "platformChartData passwords = chartData (allPlatforms passwords)"

text \<open>
  The ranking in the words of the specification: every distinct name with the number of
  its occurrences, the names in the order in which they were first met, ordered by
  descending frequency with ties left in that order, and cut after five.
\<close>

definition firstSeen :: "string list \<Rightarrow> string list" where
  "firstSeen xs = rev (remdups (rev xs))"

definition frequencies :: "string list \<Rightarrow> string list \<Rightarrow> (string \<times> nat) list" where
  "frequencies occurrences names = map (\<lambda>x. (x, count_list occurrences x)) names"

definition top5 :: "(string \<times> nat) list \<Rightarrow> (string \<times> nat) list" where
  "top5 es = take 5 (sort_key (\<lambda>e. - int (snd e)) es)"

definition spec_ranking :: "string list \<Rightarrow> (string \<times> nat) list" where
  "spec_ranking occurrences = top5 (frequencies occurrences (firstSeen occurrences))"

definition tagOccurrences :: "ApiKey list \<Rightarrow> Password list \<Rightarrow> Note list \<Rightarrow> string list" where
  "tagOccurrences apiKeys passwords notes =
     concat (map (tagsOf \<circ> tags) apiKeys) @ concat (map (tagsOf \<circ> tags) passwords) @
     concat (map (tagsOf \<circ> tags) notes)"

section \<open>Secret cells\<close>

text \<open>
  What a cell shows is a sequence of code points; a stored secret is shown as it is.
  \<^verbatim>\<open>s.repeat(n)\<close> is \<open>n\<close> copies of \<open>s\<close> in a row.  The literal repeated by
  PasswordManager is the single code point U+2022 (bullet); the literal in ApiKeyManager is
  the three code points U+00E2, U+20AC, U+00A2.  The visibility record of either manager
  starts as \<^verbatim>\<open>{}\<close>, in which no id is visible (an id that is the name of a property
  the object inherits is outside this model, as for the frequency tables).
\<close>

definition noneVisible :: "string \<Rightarrow> bool" where
  "noneVisible i = False"

definition repeat :: "'a list \<Rightarrow> nat \<Rightarrow> 'a list" where
  "repeat s n = concat (replicate n s)"

definition bullet :: nat where
  "bullet = 8226"

definition codePoints :: "string \<Rightarrow> nat list" where
  "codePoints s = map of_char s"

definition passwordCell :: "(string \<Rightarrow> bool) \<Rightarrow> Password \<Rightarrow> nat list" where
  "passwordCell visible p =
     (if visible (item_id p) then codePoints (password p) else repeat [8226] 12)"

definition apiKeyCell :: "(string \<Rightarrow> bool) \<Rightarrow> ApiKey \<Rightarrow> nat list" where
  "apiKeyCell visible k =
     (if visible (item_id k) then codePoints (apiKey k) else repeat [226, 8364, 162] 12)"

section \<open>Pagination\<close>

text \<open>
  \<^verbatim>\<open>Math.ceil(filteredPasswords.length / entriesPerPage)\<close>.  An array length is below
  \<open>2\<^sup>3\<^sup>2\<close> and the page size is one of the five offered by the selector, so the rounded
  quotient of the two doubles lies on the same side of every integer as the exact one, and
  its ceiling is computed here on the naturals.  The page size is never 0: it starts at 50
  and is only ever set from the selector.
\<close>

definition pageSizes :: "nat list" where
  "pageSizes = [10, 50, 100, 200, 500]"

definition totalPages :: "nat \<Rightarrow> nat \<Rightarrow> nat" where
  "totalPages filteredCount entriesPerPage =
     (filteredCount + entriesPerPage - 1) div entriesPerPage"

text \<open>
  \<^verbatim>\<open>Page {totalPages > 0 ? currentPage : 0} of {totalPages}\<close>: the two numbers shown.
\<close>

definition pageIndicator :: "int \<Rightarrow> nat \<Rightarrow> int \<times> nat" where
  "pageIndicator page pages = (if pages > 0 then page else 0, pages)"

text \<open>The updater functions and the \<^verbatim>\<open>disabled\<close> conditions of the two buttons.\<close>

definition previousUpdater :: "int \<Rightarrow> int" where
  "previousUpdater prev = max (prev - 1) 1"

definition nextUpdater :: "nat \<Rightarrow> int \<Rightarrow> int" where
  "nextUpdater pages prev = min (prev + 1) (int pages)"

definition previousDisabled :: "int \<Rightarrow> bool" where
  "previousDisabled page = (page = 1)"

definition nextDisabled :: "nat \<Rightarrow> int \<Rightarrow> bool" where
  "nextDisabled pages page = (page = int pages)"

section \<open>The password manager as a state machine\<close>

datatype ToastVariant = Default | Destructive

record Toast =
  t_variant :: ToastVariant
  t_title :: string
  t_description :: string

definition successToast :: "string \<Rightarrow> Toast" where
  "successToast d = \<lparr>t_variant = Default, t_title = ''Success'', t_description = d\<rparr>"

definition errorToast :: "string \<Rightarrow> Toast" where
  "errorToast d = \<lparr>t_variant = Destructive, t_title = ''Error'', t_description = d\<rparr>"

text \<open>
  \<^verbatim>\<open>dataToSave = {...values, tags: tagsArray, customFields: values.customFields || []}\<close>
\<close>

record PasswordData =
  d_appName :: string
  d_username :: string
  d_password :: string
  d_status :: string
  d_tags :: "string list"
  d_customFields :: "CustomField list"

definition dataToSave :: "PasswordValues \<Rightarrow> PasswordData" where
  "dataToSave values =
     \<lparr>d_appName = v_appName values,
      d_username = v_username values,
      d_password = v_password values,
      d_status = v_status values,
      d_tags = tagsArray (v_tags values),
      d_customFields = (case v_customFields values of None \<Rightarrow> [] | Some fs \<Rightarrow> fs)\<rparr>"

text \<open>
  The calls made on the remote store, each on the collection of the signed-in user, and
  what the store answers: the promise is rejected, or resolved with a value.
\<close>

datatype StoreCall =
    GetDocs string
  | AddDoc string PasswordData
  | UpdateDoc string string PasswordData
  | DeleteDoc string string

datatype 'a Outcome = Rejected | Resolved 'a

text \<open>
  The component's state variables, the errors held by the form, and two logs: the toasts
  shown and the store calls issued.
\<close>

record PasswordManager =
  user :: "string option"
  passwords :: "Password list"
  isLoading :: bool
  searchQuery :: string
  platformFilter :: string
  isDialogOpen :: bool
  editingPassword :: "Password option"
  visiblePasswords :: "string \<Rightarrow> bool"
  currentPage :: int
  entriesPerPage :: nat
  isFormPasswordVisible :: bool
  formErrors :: FieldErrors
  toasts :: "Toast list"
  storeCalls :: "StoreCall list"

definition initialState :: "string option \<Rightarrow> PasswordManager" where
  "initialState u =
     \<lparr>user = u, passwords = [], isLoading = True, searchQuery = [], platformFilter = ''all'',
      isDialogOpen = False, editingPassword = None, visiblePasswords = noneVisible,
      currentPage = 1, entriesPerPage = 50, isFormPasswordVisible = False,
      formErrors = [], toasts = [], storeCalls = []\<rparr>"

definition toast :: "Toast \<Rightarrow> PasswordManager \<Rightarrow> PasswordManager" where
  "toast t s = s\<lparr>toasts := toasts s @ [t]\<rparr>"

text \<open>
  The \<^verbatim>\<open>filteredPasswords\<close> memo depends on \<^verbatim>\<open>[passwords, searchQuery, platformFilter]\<close>
  and its body ends with \<^verbatim>\<open>setCurrentPage(1)\<close>.  It runs again when one of the three
  changes: a fetched array is always a new object, a string counts as changed when it
  differs from the one held.
\<close>

definition setPasswords :: "Password list \<Rightarrow> PasswordManager \<Rightarrow> PasswordManager" where
  "setPasswords fetched s = s\<lparr>passwords := fetched, currentPage := 1\<rparr>"

definition setSearchQuery :: "string \<Rightarrow> PasswordManager \<Rightarrow> PasswordManager" where
  "setSearchQuery q s = (if q = searchQuery s then s else s\<lparr>searchQuery := q, currentPage := 1\<rparr>)"

definition setPlatformFilter :: "string \<Rightarrow> PasswordManager \<Rightarrow> PasswordManager" where
  "setPlatformFilter f s =
     (if f = platformFilter s then s else s\<lparr>platformFilter := f, currentPage := 1\<rparr>)"

text \<open>\<^verbatim>\<open>handleEntriesPerPageChange\<close>, on the number read from the selected item.\<close>

definition handleEntriesPerPageChange :: "nat \<Rightarrow> PasswordManager \<Rightarrow> PasswordManager" where
  "handleEntriesPerPageChange v s = s\<lparr>entriesPerPage := v, currentPage := 1\<rparr>"

text \<open>What the table and the footer derive from the state.\<close>

definition shown :: "PasswordManager \<Rightarrow> Password list" where
  "shown s = filteredPasswords (passwords s) (searchQuery s) (platformFilter s)"

definition pageCount :: "PasswordManager \<Rightarrow> nat" where
  "pageCount s = totalPages (length (shown s)) (entriesPerPage s)"

definition clickPrevious :: "PasswordManager \<Rightarrow> PasswordManager" where
  "clickPrevious s =
     (if previousDisabled (currentPage s) then s
      else s\<lparr>currentPage := previousUpdater (currentPage s)\<rparr>)"

definition clickNext :: "PasswordManager \<Rightarrow> PasswordManager" where
  "clickNext s =
     (if nextDisabled (pageCount s) (currentPage s) then s
      else s\<lparr>currentPage := nextUpdater (pageCount s) (currentPage s)\<rparr>)"

text \<open>
  \<^verbatim>\<open>fetchPasswords\<close>, given the outcome of \<^verbatim>\<open>getDocs\<close>: nothing without a user;
  otherwise the list is replaced on success, a toast is shown on failure, and the
  \<^verbatim>\<open>finally\<close> block clears the loading flag.
\<close>

definition fetchPasswords :: "Password list Outcome \<Rightarrow> PasswordManager \<Rightarrow> PasswordManager" where
  "fetchPasswords r s =
     (case user s of
        None \<Rightarrow> s
      | Some uid \<Rightarrow>
          (let s1 = s\<lparr>isLoading := True, storeCalls := storeCalls s @ [GetDocs uid]\<rparr>;
               s2 = (case r of
                       Resolved fetchedPasswords \<Rightarrow> setPasswords fetchedPasswords s1
                     | Rejected \<Rightarrow> toast (errorToast ''Failed to fetch passwords.'') s1)
           in s2\<lparr>isLoading := False\<rparr>))"

definition closeDialog :: "PasswordManager \<Rightarrow> PasswordManager" where
  "closeDialog s = s\<lparr>isDialogOpen := False, editingPassword := None\<rparr>"

text \<open>
  \<^verbatim>\<open>handleFormSubmit\<close>, given the outcome of the write and of the listing that follows a
  successful write.  The listing is started before the dialog is closed and completes
  after; the two touch different state variables.
\<close>

definition handleFormSubmit ::
  "PasswordValues \<Rightarrow> unit Outcome \<Rightarrow> Password list Outcome \<Rightarrow> PasswordManager \<Rightarrow> PasswordManager"
where
  "handleFormSubmit values w r s =
     (case user s of
        None \<Rightarrow> s
      | Some uid \<Rightarrow>
          (case editingPassword s of
             Some e \<Rightarrow>
               (let s1 = s\<lparr>storeCalls := storeCalls s @ [UpdateDoc uid (item_id e) (dataToSave values)]\<rparr>
                in case w of
                     Rejected \<Rightarrow> toast (errorToast ''Failed to save password.'') s1
                   | Resolved u \<Rightarrow>
                       closeDialog (fetchPasswords r
                         (toast (successToast ''Password updated successfully.'') s1)))
           | None \<Rightarrow>
               (let s1 = s\<lparr>storeCalls := storeCalls s @ [AddDoc uid (dataToSave values)]\<rparr>
                in case w of
                     Rejected \<Rightarrow> toast (errorToast ''Failed to save password.'') s1
                   | Resolved u \<Rightarrow>
                       closeDialog (fetchPasswords r
                         (toast (successToast ''Password added successfully.'') s1)))))"

text \<open>
  \<^verbatim>\<open>form.handleSubmit(handleFormSubmit)\<close>: the resolver runs first; with issues they become
  the form's errors and the handler is not called.
\<close>

definition onSubmit ::
  "PasswordValues \<Rightarrow> unit Outcome \<Rightarrow> Password list Outcome \<Rightarrow> PasswordManager \<Rightarrow> PasswordManager"
where
  "onSubmit values w r s =
     (case passwordSchema values of
        Inl errors \<Rightarrow> s\<lparr>formErrors := errors\<rparr>
      | Inr accepted \<Rightarrow> handleFormSubmit accepted w r (s\<lparr>formErrors := []\<rparr>))"

definition handleDelete ::
  "string \<Rightarrow> unit Outcome \<Rightarrow> Password list Outcome \<Rightarrow> PasswordManager \<Rightarrow> PasswordManager"
where
  "handleDelete i w r s =
     (case user s of
        None \<Rightarrow> s
      | Some uid \<Rightarrow>
          (let s1 = s\<lparr>storeCalls := storeCalls s @ [DeleteDoc uid i]\<rparr>
           in case w of
                Rejected \<Rightarrow> toast (errorToast ''Failed to delete password.'') s1
              | Resolved u \<Rightarrow> fetchPasswords r (toast (successToast ''Password deleted.'') s1)))"

definition toggleVisibility :: "string \<Rightarrow> PasswordManager \<Rightarrow> PasswordManager" where
  "toggleVisibility i s =
     s\<lparr>visiblePasswords := (visiblePasswords s)(i := \<not> visiblePasswords s i)\<rparr>"

text \<open>
  The changes that make the \<^verbatim>\<open>filteredPasswords\<close> memo run again, or go through
  \<^verbatim>\<open>handleEntriesPerPageChange\<close>: typing a different query, selecting a different
  platform, selecting a page size, receiving a list.
\<close>

datatype Change =
    QueryChange string
  | PlatformChange string
  | PageSizeChange nat
  | ListChange "Password list"

fun changes :: "Change \<Rightarrow> PasswordManager \<Rightarrow> bool" where
  "changes (QueryChange q) s = (q \<noteq> searchQuery s)"
| "changes (PlatformChange f) s = (f \<noteq> platformFilter s)"
| "changes (PageSizeChange v) s = True"
| "changes (ListChange fetched) s = True"

fun change :: "Change \<Rightarrow> PasswordManager \<Rightarrow> PasswordManager" where
  "change (QueryChange q) s = setSearchQuery q s"
| "change (PlatformChange f) s = setPlatformFilter f s"
| "change (PageSizeChange v) s = handleEntriesPerPageChange v s"
| "change (ListChange fetched) s = setPasswords fetched s"

text \<open>
  \<^verbatim>\<open>openEditDialog\<close> and \<^verbatim>\<open>openAddDialog\<close>, as far as the state variables go (they also
  reset the form's fields).
\<close>

definition openEditDialog :: "Password \<Rightarrow> PasswordManager \<Rightarrow> PasswordManager" where
  "openEditDialog p s =
     s\<lparr>editingPassword := Some p, isFormPasswordVisible := False, isDialogOpen := True\<rparr>"

definition openAddDialog :: "PasswordManager \<Rightarrow> PasswordManager" where
  "openAddDialog s =
     s\<lparr>editingPassword := None, isFormPasswordVisible := False, isDialogOpen := True\<rparr>"

text \<open>
  What can happen to a mounted manager: one of its handlers runs, with the answers of the
  store where it calls the store.  A run is a sequence of such events.
\<close>

datatype Event =
    Fetch "Password list Outcome"
  | Submit PasswordValues "unit Outcome" "Password list Outcome"
  | Delete string "unit Outcome" "Password list Outcome"
  | TypeQuery string
  | SelectPlatform string
  | SelectPageSize nat
  | Previous
  | Next
  | Toggle string
  | OpenEdit Password
  | OpenAdd
  | Close

fun step :: "Event \<Rightarrow> PasswordManager \<Rightarrow> PasswordManager" where
  "step (Fetch r) s = fetchPasswords r s"
| "step (Submit values w r) s = onSubmit values w r s"
| "step (Delete i w r) s = handleDelete i w r s"
| "step (TypeQuery q) s = setSearchQuery q s"
| "step (SelectPlatform f) s = setPlatformFilter f s"
| "step (SelectPageSize v) s = handleEntriesPerPageChange v s"
| "step Previous s = clickPrevious s"
| "step Next s = clickNext s"
| "step (Toggle i) s = toggleVisibility i s"
| "step (OpenEdit p) s = openEditDialog p s"
| "step OpenAdd s = openAddDialog s"
| "step Close s = closeDialog s"

definition run :: "Event list \<Rightarrow> PasswordManager \<Rightarrow> PasswordManager" where
  "run es s = foldl (\<lambda>s' e. step e s') s es"

text \<open>
  The list last fetched with success, read off the events alone: an event delivers a
  list when its listing was issued and resolved, that is for a signed-in user, and after
  a write only when the form was accepted and the write resolved.
\<close>

fun delivered :: "string option \<Rightarrow> Event \<Rightarrow> Password list option" where
  "delivered u (Fetch (Resolved l)) = (if u = None then None else Some l)"
| "delivered u (Submit values (Resolved x) (Resolved l)) =
     (if u = None \<or> passwordSchema_issues values \<noteq> [] then None else Some l)"
| "delivered u (Delete i (Resolved x) (Resolved l)) = (if u = None then None else Some l)"
| "delivered u e = None"

fun lastFetched :: "string option \<Rightarrow> Password list \<Rightarrow> Event list \<Rightarrow> Password list" where
  "lastFetched u l [] = l"
| "lastFetched u l (e # es) =
     lastFetched u (case delivered u e of None \<Rightarrow> l | Some l' \<Rightarrow> l') es"

section \<open>Sample form values\<close>

text \<open>The \<^verbatim>\<open>defaultValues\<close> of the password form, and a form filled in.\<close>

definition passwordDefaults :: PasswordValues where
  "passwordDefaults =
     \<lparr>v_tags = Some [], v_customFields = Some [],
      v_appName = [], v_username = [], v_password = [], v_status = ''Active''\<rparr>"

definition sample_values :: PasswordValues where
  "sample_values =
     \<lparr>v_tags = Some ''work, 2024'',
      v_customFields = Some [\<lparr>cf_label = ''PIN'', cf_value = ''1234''\<rparr>],
      v_appName = ''Gmail'', v_username = ''alice'', v_password = ''hunter2'',
      v_status = ''Active''\<rparr>"

definition sample_key_values :: ApiKeyValues where
  "sample_key_values =
     \<lparr>v_tags = Some ''ai, prod'', v_customFields = None,
      v_modelName = ''Gemini'', v_apiKey = ''sk-123'', v_keyStatus = ''Active''\<rparr>"

definition sample_note_values :: NoteValues where
  "sample_note_values =
     \<lparr>v_tags = None, v_customFields = Some [],
      v_title = ''Wifi'', v_content = ''Router PIN''\<rparr>"

section \<open>The search predicate in the words of the specification\<close>

text \<open>
  A record matches when a designated text field or a tag contains the query as it is
  written, with no change of case.
\<close>

definition spec_contains :: "string \<Rightarrow> string \<Rightarrow> bool" where
  "spec_contains q field = str_includes field q"

definition spec_match :: "string \<Rightarrow> string list \<Rightarrow> string list option \<Rightarrow> bool" where
  "spec_match q designated ts =
     (list_ex (spec_contains q) designated \<or> tags_some (spec_contains q) ts)"

section \<open>Sample records\<close>

definition sample_password :: Password where
  "sample_password =
     \<lparr>item_id = ''p1'', tags = Some [''work'', ''2024''], customFields = None,
      appName = ''Gmail'', username = ''alice'', password = ''hunter2'', status = Active\<rparr>"

definition sample_key :: ApiKey where
  "sample_key =
     \<lparr>item_id = ''k1'', tags = Some [''ai'', ''prod''], customFields = None,
      modelName = ''Gemini'', apiKey = ''sk-123'', key_status = Active\<rparr>"

definition sample_note :: Note where
  "sample_note =
     \<lparr>item_id = ''n1'', tags = None, customFields = None,
      title = ''Wifi'', content = ''Router PIN''\<rparr>"

section \<open>Properties of the string operations\<close>

lemma startsWith_iff: "startsWith s q \<longleftrightarrow> (\<exists>suf. s = q @ suf)"
  by (induction s q rule: startsWith.induct) auto

lemma includes_iff: "str_includes s q \<longleftrightarrow> (\<exists>pre suf. s = pre @ q @ suf)"
proof (induction s)
  case Nil
  show ?case by auto
next
  case (Cons c cs)
  show ?case
  proof
    assume "str_includes (c # cs) q"
    then consider "startsWith (c # cs) q" | "str_includes cs q" by auto
    then show "\<exists>pre suf. c # cs = pre @ q @ suf"
    proof cases
      case 1
      then obtain suf where "c # cs = q @ suf" by (auto simp: startsWith_iff)
      then have "c # cs = [] @ q @ suf" by simp
      then show ?thesis by blast
    next
      case 2
      then obtain pre suf where "cs = pre @ q @ suf" using Cons.IH by blast
      then have "c # cs = (c # pre) @ q @ suf" by simp
      then show ?thesis by blast
    qed
  next
    assume "\<exists>pre suf. c # cs = pre @ q @ suf"
    then obtain pre suf where eq: "c # cs = pre @ q @ suf" by blast
    show "str_includes (c # cs) q"
    proof (cases pre)
      case Nil
      with eq have "startsWith (c # cs) q" by (auto simp: startsWith_iff)
      then show ?thesis by simp
    next
      case (Cons a pre')
      with eq have "cs = pre' @ q @ suf" by simp
      then have "str_includes cs q" using Cons.IH by blast
      then show ?thesis by simp
    qed
  qed
qed

lemma includes_empty_query: "str_includes s []"
  by (cases s) simp_all



lemma char_eq_char_of: "(c = char_of (n::nat)) = (take_bit 8 n = of_char c)"
  using char_of_eq_iff [of n c] by auto

lemmas char_eval = char_of_eq_iff char_eq_char_of

lemmas search_defs =
  searchMatch_def keyMatch_def noteMatch_def platformMatch_def lc_includes_def
  toLowerCase_def toLowerChar_def tags_some_def

lemma lc_includes_iff:
  "lc_includes q f \<longleftrightarrow> (\<exists>pre suf. toLowerCase f = pre @ toLowerCase q @ suf)"
  by (simp add: lc_includes_def includes_iff)

lemma tags_some_iff: "tags_some P ts \<longleftrightarrow> (\<exists>t \<in> set (tagsOf ts). P t)"
  by (cases ts) (simp_all add: tags_some_def tagsOf_def list_ex_iff)

section \<open>Pagination arithmetic\<close>

lemma pageSizes_pos: "e \<in> set pageSizes \<Longrightarrow> 0 < e"
  by (auto simp: pageSizes_def)

lemma totalPages_ceiling:
  assumes "0 < e"
  shows "int (totalPages n e) = \<lceil>real n / real e\<rceil>"
proof -
  define k where "k = (n + e - 1) div e"
  have split: "n + e - 1 = k * e + (n + e - 1) mod e"
    unfolding k_def by simp
  have rem: "(n + e - 1) mod e < e"
    using assms by simp
  have upper: "n \<le> k * e"
    using split rem assms by linarith
  have lower: "k * e < n + e"
    using split assms by linarith
  have le: "real n / real e \<le> real k"
  proof -
    have "real n \<le> real (k * e)" using upper by (simp only: of_nat_le_iff)
    then show ?thesis using assms by (simp add: pos_divide_le_eq)
  qed
  have gt: "real k - 1 < real n / real e"
  proof -
    have "real (k * e) < real (n + e)" using lower by (simp only: of_nat_less_iff)
    then have "(real k - 1) * real e < real n" by (simp add: algebra_simps)
    then show ?thesis using assms by (simp add: pos_less_divide_eq)
  qed
  have "\<lceil>real n / real e\<rceil> = int k"
    by (rule ceiling_unique) (use le gt in simp_all)
  then show ?thesis by (simp add: totalPages_def k_def)
qed

lemma totalPages_zero: "totalPages 0 e = 0"
  by (cases e) (simp_all add: totalPages_def)

lemma totalPages_pos: "0 < e \<Longrightarrow> 0 < n \<Longrightarrow> 1 \<le> totalPages n e"
  by (simp add: totalPages_def Suc_le_eq div_greater_zero_iff)



section \<open>Claims about search and filtering\<close>

text \<open>
  C1.  For every loaded list, query and category filter, the filtered list shown by the
  password manager holds exactly the loaded records that pass the search test and whose
  \<^verbatim>\<open>appName\<close> is the selected category; with the category \<^verbatim>\<open>"all"\<close> it holds every
  record that passes the search test.  A record is shown if and only if it passes both.
\<close>

theorem C1_filtered_is_search_and_category:
  "set (filteredPasswords ps q c) =
     {p \<in> set ps. searchMatch q p \<and> (c = ''all'' \<or> appName p = c)} \<and>
   (p \<in> set (filteredPasswords ps q c) \<longleftrightarrow>
      p \<in> set ps \<and> searchMatch q p \<and> platformMatch c p) \<and>
   (c = ''all'' \<longrightarrow> set (filteredPasswords ps q c) = {p \<in> set ps. searchMatch q p}) \<and>
   (c \<noteq> ''all'' \<longrightarrow>
      set (filteredPasswords ps q c) = {p \<in> set ps. searchMatch q p \<and> appName p = c})"
  by (auto simp: filteredPasswords_def platformMatch_def)

theorem C1_witness:
  "''all'' = ''all'' \<and> ''Gmail'' \<noteq> ''all'' \<and>
   sample_password \<in> set (filteredPasswords [sample_password] ''MAIL'' ''all'') \<and>
   sample_password \<in> set (filteredPasswords [sample_password] ''MAIL'' ''Gmail'') \<and>
   sample_password \<notin> set (filteredPasswords [sample_password] ''MAIL'' ''GitHub'')"
proof -
  have m: "searchMatch ''MAIL'' sample_password"
    by (simp add: search_defs char_eval sample_password_def)
  have a: "platformMatch ''all'' sample_password"
    by (simp add: platformMatch_def)
  have g: "platformMatch ''Gmail'' sample_password"
    by (simp add: platformMatch_def sample_password_def)
  have h: "\<not> platformMatch ''GitHub'' sample_password"
    by (simp add: platformMatch_def sample_password_def)
  have n: "appName sample_password = ''Gmail''"
    by (simp add: sample_password_def)
  show ?thesis
    using m a g h n
      C1_filtered_is_search_and_category
        [of "[sample_password]" "''MAIL''" "''all''" sample_password]
      C1_filtered_is_search_and_category
        [of "[sample_password]" "''MAIL''" "''Gmail''" sample_password]
      C1_filtered_is_search_and_category
        [of "[sample_password]" "''MAIL''" "''GitHub''" sample_password]
    by simp
qed

text \<open>
  C2, as amended.  A record matches a query if and only if one of its designated text
  fields (\<^verbatim>\<open>appName\<close> or \<^verbatim>\<open>username\<close> of a password, \<^verbatim>\<open>modelName\<close> of an API key,
  \<^verbatim>\<open>title\<close> or \<^verbatim>\<open>content\<close> of a note) or one of its tags, put in lower case, contains the
  query put in lower case: the match ignores case.
\<close>

theorem C2_match_ignores_case:
  "(searchMatch q p \<longleftrightarrow>
      (\<exists>f \<in> {appName p, username p} \<union> set (tagsOf (tags p)).
         \<exists>pre suf. toLowerCase f = pre @ toLowerCase q @ suf)) \<and>
   (keyMatch q k \<longleftrightarrow>
      (\<exists>f \<in> {modelName k} \<union> set (tagsOf (tags k)).
         \<exists>pre suf. toLowerCase f = pre @ toLowerCase q @ suf)) \<and>
   (noteMatch q n \<longleftrightarrow>
      (\<exists>f \<in> {title n, content n} \<union> set (tagsOf (tags n)).
         \<exists>pre suf. toLowerCase f = pre @ toLowerCase q @ suf))"
  unfolding searchMatch_def keyMatch_def noteMatch_def tags_some_iff lc_includes_iff
  by blast

theorem C2_witness:
  "searchMatch ''I'' sample_password \<and> keyMatch ''I'' sample_key \<and> noteMatch ''I'' sample_note"
proof -
  have p: "toLowerCase (appName sample_password) = ''gma'' @ toLowerCase ''I'' @ ''l''"
    by (simp add: toLowerCase_def toLowerChar_def char_eval sample_password_def)
  have k: "toLowerCase (modelName sample_key) = ''gem'' @ toLowerCase ''I'' @ ''ni''"
    by (simp add: toLowerCase_def toLowerChar_def char_eval sample_key_def)
  have n: "toLowerCase (title sample_note) = ''w'' @ toLowerCase ''I'' @ ''fi''"
    by (simp add: toLowerCase_def toLowerChar_def char_eval sample_note_def)
  show ?thesis
    using p k n C2_match_ignores_case [of "''I''" sample_password sample_key sample_note]
    by blast
qed

text \<open>
  The claim as first stated, with a case-sensitive test, fails: the query \<^verbatim>\<open>gmail\<close>
  matches the password record of the platform \<^verbatim>\<open>Gmail\<close>, none of whose fields or tags
  contains \<^verbatim>\<open>gmail\<close> as written.
\<close>

theorem C2_counterexample:
  "searchMatch ''gmail'' sample_password \<and>
   \<not> spec_match ''gmail'' [appName sample_password, username sample_password]
        (tags sample_password)"
  by (simp add: search_defs char_eval spec_match_def spec_contains_def sample_password_def)

section \<open>Claims about pagination\<close>

text \<open>
  C3, as amended.  For every filtered list and every allowed page size, the page count is
  the ceiling of the number of filtered records divided by the page size.  It is at least
  1 exactly when the filtered list is not empty; for an empty filtered list it is 0 and the
  page indicator shows 0 of 0.
\<close>

theorem C3_page_count:
  assumes "e \<in> set pageSizes"
  shows "int (totalPages n e) = \<lceil>real n / real e\<rceil> \<and>
         (1 \<le> totalPages n e \<longleftrightarrow> n \<noteq> 0) \<and>
         (n = 0 \<longrightarrow> totalPages n e = 0 \<and> pageIndicator page (totalPages n e) = (0, 0))"
proof -
  have pos: "0 < e" using assms by (rule pageSizes_pos)
  have "1 \<le> totalPages n e \<longleftrightarrow> n \<noteq> 0"
    using totalPages_pos [OF pos, of n] totalPages_zero [of e] by (cases "n = 0") auto
  then show ?thesis
    using totalPages_ceiling [OF pos, of n] totalPages_zero [of e]
    by (simp add: pageIndicator_def)
qed

theorem C3_witness:
  "50 \<in> set pageSizes \<and> totalPages 120 50 = 3 \<and> int (totalPages 120 50) = \<lceil>real 120 / real 50\<rceil> \<and>
   totalPages 0 50 = 0 \<and> pageIndicator 1 (totalPages 0 50) = (0, 0)"
proof -
  have m: "(50::nat) \<in> set pageSizes" by (simp add: pageSizes_def)
  have "totalPages 120 50 = 3" by (simp add: totalPages_def)
  then show ?thesis
    using m C3_page_count [OF m, of 120 1] C3_page_count [OF m, of 0 1]
    by (simp add: pageIndicator_def)
qed

text \<open>
  The claim as first stated asks for a page count of at least 1; with no filtered record
  and the initial page size the count is 0.
\<close>

theorem C3_counterexample:
  "50 \<in> set pageSizes \<and> \<not> 1 \<le> totalPages (length (filteredPasswords [] [] ''all'')) 50"
  by (simp add: pageSizes_def filteredPasswords_def totalPages_def)

text \<open>
  C4, as amended.  Changing the search query, the category filter or the page size, or
  receiving a list, sets the current page to 1.  After such a change the current page
  lies between 1 and the page count exactly when the filtered list is not empty: with an
  empty filtered list the current page is 1 and the page count is 0.
\<close>

theorem C4_change_resets_page:
  assumes "changes c s" and "entriesPerPage (change c s) \<in> set pageSizes"
  shows "currentPage (change c s) = 1 \<and>
         (1 \<le> currentPage (change c s) \<and> currentPage (change c s) \<le> int (pageCount (change c s))
            \<longleftrightarrow> shown (change c s) \<noteq> [])"
proof -
  have one: "currentPage (change c s) = 1"
    using assms(1)
    by (cases c)
       (simp_all add: setSearchQuery_def setPlatformFilter_def
          handleEntriesPerPageChange_def setPasswords_def)
  have pos: "0 < entriesPerPage (change c s)"
    using assms(2) by (rule pageSizes_pos)
  have "1 \<le> pageCount (change c s) \<longleftrightarrow> shown (change c s) \<noteq> []"
    unfolding pageCount_def
    using totalPages_pos [OF pos, of "length (shown (change c s))"]
          totalPages_zero [of "entriesPerPage (change c s)"]
    by (cases "shown (change c s)") auto
  then show ?thesis using one by auto
qed

theorem C4_witness:
  "changes (ListChange [sample_password]) (initialState (Some ''u'')) \<and>
   entriesPerPage (change (ListChange [sample_password]) (initialState (Some ''u''))) \<in> set pageSizes \<and>
   currentPage (change (ListChange [sample_password]) (initialState (Some ''u''))) = 1 \<and>
   pageCount (change (ListChange [sample_password]) (initialState (Some ''u''))) = 1"
proof -
  let ?s = "change (ListChange [sample_password]) (initialState (Some ''u''))"
  have a: "changes (ListChange [sample_password]) (initialState (Some ''u''))" by simp
  have b: "entriesPerPage ?s \<in> set pageSizes"
    by (simp add: setPasswords_def initialState_def pageSizes_def)
  have c: "pageCount ?s = 1"
    by (simp add: pageCount_def shown_def setPasswords_def initialState_def totalPages_def
          filteredPasswords_def search_defs sample_password_def)
  show ?thesis using a b c C4_change_resets_page [OF a b] by simp
qed

text \<open>
  The claim as first stated puts the current page between 1 and the page count after
  every change.  Typing a query while no record is loaded leaves the current page at 1
  and the page count at 0.
\<close>

theorem C4_counterexample:
  "changes (QueryChange ''x'') (initialState (Some ''u'')) \<and>
   entriesPerPage (change (QueryChange ''x'') (initialState (Some ''u''))) \<in> set pageSizes \<and>
   \<not> (1 \<le> currentPage (change (QueryChange ''x'') (initialState (Some ''u''))) \<and>
      currentPage (change (QueryChange ''x'') (initialState (Some ''u'')))
        \<le> int (pageCount (change (QueryChange ''x'') (initialState (Some ''u'')))))"
  by (simp add: setSearchQuery_def initialState_def pageSizes_def pageCount_def shown_def
        filteredPasswords_def totalPages_def)

text \<open>
  At its boundary each button leaves the state as it is: Previous at page 1, Next when
  the current page equals the page count.  An empty filtered list has page count 0.
\<close>

lemma navigation_at_boundary:
  "(currentPage s = 1 \<longrightarrow>
      clickPrevious s = s \<and> previousUpdater (currentPage s) = currentPage s) \<and>
   (currentPage s = int (pageCount s) \<longrightarrow>
      clickNext s = s \<and> nextUpdater (pageCount s) (currentPage s) = currentPage s) \<and>
   (shown s = [] \<longrightarrow> pageCount s = 0)"
  by (simp add: clickPrevious_def clickNext_def previousUpdater_def nextUpdater_def
        previousDisabled_def nextDisabled_def pageCount_def totalPages_zero)

text \<open>
  With an empty filtered list and the current page at 1, where every change leaves it,
  the current page differs from the page count: Next is enabled, and a click on it moves
  the current page to 0.
\<close>

lemma next_on_empty_list:
  "shown s = [] \<Longrightarrow> currentPage s = 1 \<Longrightarrow>
     \<not> nextDisabled (pageCount s) (currentPage s) \<and> currentPage (clickNext s) = 0"
  by (simp add: clickNext_def nextDisabled_def nextUpdater_def pageCount_def totalPages_zero)

text \<open>
  C5.  Previous is to leave the current page unchanged at page 1, and Next at the last
  page, the case of an empty filtered list included.  The code does not do so for an
  empty list.  Once an empty list has been loaded the current page is 1 and the page
  count 0, and the indicator shows 0 of 0; Next is enabled there, a click on it changes
  the current page to 0, and from page 0 Previous is enabled and changes it back to 1.
\<close>

theorem C5_next_moves_on_empty_list:
  "shown (fetchPasswords (Resolved []) (initialState (Some ''u''))) = [] \<and>
   currentPage (fetchPasswords (Resolved []) (initialState (Some ''u''))) = 1 \<and>
   pageCount (fetchPasswords (Resolved []) (initialState (Some ''u''))) = 0 \<and>
   pageIndicator (currentPage (fetchPasswords (Resolved []) (initialState (Some ''u''))))
     (pageCount (fetchPasswords (Resolved []) (initialState (Some ''u'')))) = (0, 0) \<and>
   \<not> nextDisabled (pageCount (fetchPasswords (Resolved []) (initialState (Some ''u''))))
       (currentPage (fetchPasswords (Resolved []) (initialState (Some ''u'')))) \<and>
   currentPage (clickNext (fetchPasswords (Resolved []) (initialState (Some ''u'')))) = 0 \<and>
   clickNext (fetchPasswords (Resolved []) (initialState (Some ''u''))) \<noteq>
     fetchPasswords (Resolved []) (initialState (Some ''u'')) \<and>
   currentPage
     (clickPrevious (clickNext (fetchPasswords (Resolved []) (initialState (Some ''u''))))) = 1"
proof -
  let ?s = "fetchPasswords (Resolved []) (initialState (Some ''u''))"
  have page: "currentPage ?s = 1"
    by (simp add: fetchPasswords_def setPasswords_def initialState_def Let_def)
  have none: "shown ?s = []"
    by (simp add: shown_def fetchPasswords_def setPasswords_def initialState_def Let_def
          filteredPasswords_def)
  have count: "pageCount ?s = 0"
    by (simp add: pageCount_def none totalPages_zero)
  have moved: "currentPage (clickNext ?s) = 0"
    by (simp add: clickNext_def nextDisabled_def nextUpdater_def page count)
  have differs: "clickNext ?s \<noteq> ?s"
    using moved page by (metis zero_neq_one)
  have returns: "currentPage (clickPrevious (clickNext ?s)) = 1"
    by (simp add: clickPrevious_def previousDisabled_def previousUpdater_def moved)
  show ?thesis
    using page none count moved differs returns
    by (simp add: pageIndicator_def nextDisabled_def)
qed

section \<open>Splitting and trimming\<close>

lemma split_from_nonempty: "split_from seg s \<noteq> []"
  by (induction s arbitrary: seg) auto

lemma join_commas_Cons: "segs \<noteq> [] \<Longrightarrow> join_commas (seg # segs) = seg @ CHR '','' # join_commas segs"
  by (cases segs) simp_all

lemma join_split_from: "join_commas (split_from seg s) = rev seg @ s"
  by (induction s arbitrary: seg) (simp_all add: join_commas_Cons split_from_nonempty)

lemma split_from_no_comma:
  "CHR '','' \<notin> set seg \<Longrightarrow> \<forall>x \<in> set (split_from seg s). CHR '','' \<notin> set x"
proof (induction s arbitrary: seg)
  case Nil
  then show ?case by simp
next
  case (Cons a s)
  have closed: "\<forall>x \<in> set (split_from [] s). CHR '','' \<notin> set x"
    by (rule Cons.IH) simp
  have longer: "\<forall>x \<in> set (split_from (a # seg) s). CHR '','' \<notin> set x" if "a \<noteq> CHR '',''"
    using that Cons.prems by (intro Cons.IH) simp
  show ?case using closed longer Cons.prems by simp
qed

lemma join_split_commas: "join_commas (split_commas s) = s"
  by (simp add: split_commas_def join_split_from)

lemma split_commas_no_comma: "x \<in> set (split_commas s) \<Longrightarrow> CHR '','' \<notin> set x"
  unfolding split_commas_def using split_from_no_comma [of "[]" s] by simp

lemma split_commas_empty: "split_commas [] = [[]]"
  by (simp add: split_commas_def)

lemma trim_decomposition:
  "\<exists>l r. s = l @ trim s @ r \<and> list_all isWhiteSpace l \<and> list_all isWhiteSpace r"
proof -
  define d where "d = dropWhile isWhiteSpace s"
  have s: "s = takeWhile isWhiteSpace s @ d"
    by (simp add: d_def)
  have t: "trim s = rev (dropWhile isWhiteSpace (rev d))"
    by (simp add: trim_def d_def)
  have "d = rev (takeWhile isWhiteSpace (rev d) @ dropWhile isWhiteSpace (rev d))"
    by (simp only: takeWhile_dropWhile_id rev_rev_ident)
  also have "\<dots> = rev (dropWhile isWhiteSpace (rev d)) @ rev (takeWhile isWhiteSpace (rev d))"
    by (rule rev_append)
  finally have d: "d = trim s @ rev (takeWhile isWhiteSpace (rev d))"
    by (simp only: t)
  have l: "list_all isWhiteSpace (takeWhile isWhiteSpace s)"
    by (simp add: list_all_iff) (metis set_takeWhileD)
  have r: "list_all isWhiteSpace (rev (takeWhile isWhiteSpace (rev d)))"
    by (simp add: list_all_iff) (metis set_takeWhileD)
  have "s = takeWhile isWhiteSpace s @ trim s @ rev (takeWhile isWhiteSpace (rev d))"
    using s d by simp
  then show ?thesis using l r by blast
qed

lemma trim_ends:
  assumes "trim s \<noteq> []"
  shows "\<not> isWhiteSpace (hd (trim s)) \<and> \<not> isWhiteSpace (last (trim s))"
proof -
  define d where "d = dropWhile isWhiteSpace s"
  define e where "e = dropWhile isWhiteSpace (rev d)"
  have t: "trim s = rev e" by (simp add: trim_def d_def e_def)
  have e: "e \<noteq> []" using assms t by simp
  have last_ok: "\<not> isWhiteSpace (hd e)"
    using e unfolding e_def by (rule hd_dropWhile)
  have "d = rev (takeWhile isWhiteSpace (rev d) @ dropWhile isWhiteSpace (rev d))"
    by (simp only: takeWhile_dropWhile_id rev_rev_ident)
  also have "\<dots> = rev (dropWhile isWhiteSpace (rev d)) @ rev (takeWhile isWhiteSpace (rev d))"
    by (rule rev_append)
  finally have dd: "d = rev e @ rev (takeWhile isWhiteSpace (rev d))"
    by (simp only: e_def)
  have "rev e \<noteq> []" using e by simp
  then have "hd d = hd (rev e)" using dd by (metis hd_append2)
  moreover have "d \<noteq> []" using dd e by auto
  then have "\<not> isWhiteSpace (hd d)" unfolding d_def by (rule hd_dropWhile)
  ultimately have "\<not> isWhiteSpace (hd (rev e))" by simp
  moreover have "last (rev e) = hd e" using e by (simp add: last_rev)
  ultimately show ?thesis using t last_ok by simp
qed

lemma trim_no_comma: "CHR '','' \<notin> set x \<Longrightarrow> CHR '','' \<notin> set (trim x)"
  unfolding trim_def by (metis set_dropWhileD set_rev)

section \<open>Claims about the tags input\<close>

text \<open>
  C6.  For every tags input, the stored tags are the segments of the input between its
  commas, each trimmed of the white space at its two ends, with the empty ones dropped.
  An absent or empty input gives no tag.  (The segments joined by commas give the input
  back and hold no comma; a stored tag is not empty, holds no comma, and neither begins
  nor ends with white space.)
\<close>

theorem C6_tags_split_trim_drop:
  "tagsArray t = spec_tags (case t of None \<Rightarrow> [] | Some s \<Rightarrow> s) \<and>
   tagsArray None = [] \<and> tagsArray (Some []) = [] \<and>
   join_commas (split_commas s) = s \<and>
   (\<forall>seg \<in> set (split_commas s). CHR '','' \<notin> set seg) \<and>
   (\<forall>tag \<in> set (tagsArray t).
      tag \<noteq> [] \<and> CHR '','' \<notin> set tag \<and>
      \<not> isWhiteSpace (hd tag) \<and> \<not> isWhiteSpace (last tag))"
proof -
  have empty: "spec_tags [] = []"
    by (simp add: spec_tags_def split_commas_empty trim_def)
  have eq: "tagsArray t = spec_tags (case t of None \<Rightarrow> [] | Some s \<Rightarrow> s)"
  proof (cases t)
    case None
    then show ?thesis by (simp add: tagsArray_def empty)
  next
    case (Some u)
    show ?thesis
    proof (cases "u = []")
      case True
      with Some show ?thesis by (simp add: tagsArray_def empty)
    next
      case False
      with Some show ?thesis by (simp add: tagsArray_def spec_tags_def)
    qed
  qed
  have tags: "tag \<noteq> [] \<and> CHR '','' \<notin> set tag \<and>
      \<not> isWhiteSpace (hd tag) \<and> \<not> isWhiteSpace (last tag)"
    if "tag \<in> set (tagsArray t)" for tag
  proof -
    from that eq obtain seg where
      seg: "seg \<in> set (split_commas (case t of None \<Rightarrow> [] | Some s \<Rightarrow> s))"
      and tag: "tag = trim seg" and ne: "tag \<noteq> []"
      by (auto simp: spec_tags_def)
    have "CHR '','' \<notin> set tag"
      using split_commas_no_comma [OF seg] tag by (simp add: trim_no_comma)
    then show ?thesis using ne trim_ends [of seg] tag by simp
  qed
  show ?thesis
    using eq empty tags
    by (simp add: tagsArray_def join_split_commas split_commas_no_comma)
qed

theorem C6_witness:
  "tagsArray (Some '' work, personal,, finance ,'') = [''work'', ''personal'', ''finance''] \<and>
   tagsArray None = [] \<and> split_commas ''a,,b'' = [''a'', [], ''b'']"
proof -
  have "spec_tags '' work, personal,, finance ,'' = [''work'', ''personal'', ''finance'']"
    by (simp add: spec_tags_def split_commas_def trim_def isWhiteSpace_def)
  moreover have "split_commas ''a,,b'' = [''a'', [], ''b'']"
    by (simp add: split_commas_def)
  ultimately show ?thesis
    using C6_tags_split_trim_drop [of "Some '' work, personal,, finance ,''" "''a,,b''"]
    by simp
qed



section \<open>Claims about validation\<close>

lemma string_min1_empty: "string_min1 path msg s = [] \<longleftrightarrow> s \<noteq> []"
  by (cases s) (simp_all add: string_min1_def)

lemma enum_status_empty: "enum_status path s = [] \<longleftrightarrow> s = ''Active'' \<or> s = ''Inactive''"
  by (simp add: enum_status_def)

lemma customFields_from_empty:
  "customFields_from i fs = [] \<longleftrightarrow> (\<forall>f \<in> set fs. cf_label f \<noteq> [] \<and> cf_value f \<noteq> [])"
  by (induction fs arbitrary: i) (auto simp: string_min1_empty)

lemma customFields_optional_empty:
  "customFields_optional cfs = [] \<longleftrightarrow>
     (\<forall>f \<in> set (case cfs of None \<Rightarrow> [] | Some fs \<Rightarrow> fs). cf_label f \<noteq> [] \<and> cf_value f \<noteq> [])"
  by (cases cfs) (simp_all add: customFields_optional_def customFields_from_empty)

lemma resolve_accepts: "(\<exists>a. resolve issues v = Inr a) \<longleftrightarrow> issues v = []"
  by (simp add: resolve_def)

lemma resolve_rejects: "resolve issues v = Inl errs \<longleftrightarrow> errs = issues v \<and> issues v \<noteq> []"
  by (auto simp: resolve_def)

lemmas issues_empty =
  string_min1_empty enum_status_empty customFields_optional_empty

text \<open>
  C7.  For every payload of a form, validation succeeds if and only if every required
  string field of its kind is non-empty, its status (on the kinds that have one) is
  \<^verbatim>\<open>Active\<close> or \<^verbatim>\<open>Inactive\<close>, and every custom field present has a non-empty label and a
  non-empty value (no custom field at all being valid).  When validation fails the
  verdict is a non-empty list of messages keyed by field, which becomes the errors of the
  form; the password manager then changes nothing else and issues no store call.
\<close>

theorem C7_validation_gates_store:
  "((\<exists>a. passwordSchema v = Inr a) \<longleftrightarrow>
      v_appName v \<noteq> [] \<and> v_username v \<noteq> [] \<and> v_password v \<noteq> [] \<and>
      (v_status v = ''Active'' \<or> v_status v = ''Inactive'') \<and>
      (\<forall>f \<in> set (case v_customFields v of None \<Rightarrow> [] | Some fs \<Rightarrow> fs).
         cf_label f \<noteq> [] \<and> cf_value f \<noteq> [])) \<and>
   ((\<exists>a. apiKeySchema k = Inr a) \<longleftrightarrow>
      v_modelName k \<noteq> [] \<and> v_apiKey k \<noteq> [] \<and>
      (v_keyStatus k = ''Active'' \<or> v_keyStatus k = ''Inactive'') \<and>
      (\<forall>f \<in> set (case v_customFields k of None \<Rightarrow> [] | Some fs \<Rightarrow> fs).
         cf_label f \<noteq> [] \<and> cf_value f \<noteq> [])) \<and>
   ((\<exists>a. noteSchema n = Inr a) \<longleftrightarrow>
      v_title n \<noteq> [] \<and> v_content n \<noteq> [] \<and>
      (\<forall>f \<in> set (case v_customFields n of None \<Rightarrow> [] | Some fs \<Rightarrow> fs).
         cf_label f \<noteq> [] \<and> cf_value f \<noteq> [])) \<and>
   ((\<forall>a. passwordSchema v \<noteq> Inr a) \<longrightarrow>
      passwordSchema v = Inl (passwordSchema_issues v) \<and> passwordSchema_issues v \<noteq> [] \<and>
      onSubmit v w r s = s\<lparr>formErrors := passwordSchema_issues v\<rparr> \<and>
      storeCalls (onSubmit v w r s) = storeCalls s) \<and>
   ((\<forall>a. apiKeySchema k \<noteq> Inr a) \<longrightarrow>
      apiKeySchema k = Inl (apiKeySchema_issues k) \<and> apiKeySchema_issues k \<noteq> []) \<and>
   ((\<forall>a. noteSchema n \<noteq> Inr a) \<longrightarrow>
      noteSchema n = Inl (noteSchema_issues n) \<and> noteSchema_issues n \<noteq> []) \<and>
   (v_appName v = [] \<longrightarrow>
      (Field ''appName'', Msg ''App/Platform name is required'') \<in> set (passwordSchema_issues v)) \<and>
   (v_username v = [] \<longrightarrow>
      (Field ''username'', Msg ''Username/Email is required'') \<in> set (passwordSchema_issues v)) \<and>
   (v_password v = [] \<longrightarrow>
      (Field ''password'', Msg ''Password is required'') \<in> set (passwordSchema_issues v))"
proof -
  have p: "(\<exists>a. passwordSchema v = Inr a) \<longleftrightarrow>
      v_appName v \<noteq> [] \<and> v_username v \<noteq> [] \<and> v_password v \<noteq> [] \<and>
      (v_status v = ''Active'' \<or> v_status v = ''Inactive'') \<and>
      (\<forall>f \<in> set (case v_customFields v of None \<Rightarrow> [] | Some fs \<Rightarrow> fs).
         cf_label f \<noteq> [] \<and> cf_value f \<noteq> [])"
    unfolding passwordSchema_def resolve_accepts passwordSchema_issues_def
    by (simp add: issues_empty)
  have k: "(\<exists>a. apiKeySchema k = Inr a) \<longleftrightarrow>
      v_modelName k \<noteq> [] \<and> v_apiKey k \<noteq> [] \<and>
      (v_keyStatus k = ''Active'' \<or> v_keyStatus k = ''Inactive'') \<and>
      (\<forall>f \<in> set (case v_customFields k of None \<Rightarrow> [] | Some fs \<Rightarrow> fs).
         cf_label f \<noteq> [] \<and> cf_value f \<noteq> [])"
    unfolding apiKeySchema_def resolve_accepts apiKeySchema_issues_def
    by (simp add: issues_empty)
  have n: "(\<exists>a. noteSchema n = Inr a) \<longleftrightarrow>
      v_title n \<noteq> [] \<and> v_content n \<noteq> [] \<and>
      (\<forall>f \<in> set (case v_customFields n of None \<Rightarrow> [] | Some fs \<Rightarrow> fs).
         cf_label f \<noteq> [] \<and> cf_value f \<noteq> [])"
    unfolding noteSchema_def resolve_accepts noteSchema_issues_def
    by (simp add: issues_empty)
  have pf: "passwordSchema v = Inl (passwordSchema_issues v) \<and> passwordSchema_issues v \<noteq> [] \<and>
      onSubmit v w r s = s\<lparr>formErrors := passwordSchema_issues v\<rparr> \<and>
      storeCalls (onSubmit v w r s) = storeCalls s"
    if "\<forall>a. passwordSchema v \<noteq> Inr a"
  proof -
    from that have "passwordSchema_issues v \<noteq> []"
      by (auto simp: passwordSchema_def resolve_def)
    then show ?thesis
      by (simp add: onSubmit_def passwordSchema_def resolve_def)
  qed
  have kf: "apiKeySchema k = Inl (apiKeySchema_issues k) \<and> apiKeySchema_issues k \<noteq> []"
    if "\<forall>a. apiKeySchema k \<noteq> Inr a"
    using that by (auto simp: apiKeySchema_def resolve_def)
  have nf: "noteSchema n = Inl (noteSchema_issues n) \<and> noteSchema_issues n \<noteq> []"
    if "\<forall>a. noteSchema n \<noteq> Inr a"
    using that by (auto simp: noteSchema_def resolve_def)
  have keyed:
    "v_appName v = [] \<longrightarrow>
       (Field ''appName'', Msg ''App/Platform name is required'') \<in> set (passwordSchema_issues v)"
    "v_username v = [] \<longrightarrow>
       (Field ''username'', Msg ''Username/Email is required'') \<in> set (passwordSchema_issues v)"
    "v_password v = [] \<longrightarrow>
       (Field ''password'', Msg ''Password is required'') \<in> set (passwordSchema_issues v)"
    by (simp_all add: passwordSchema_issues_def string_min1_def)
  show ?thesis
    using p k n pf kf nf keyed by blast
qed

theorem C7_witness:
  "(\<exists>a. passwordSchema sample_values = Inr a) \<and>
   (\<exists>a. apiKeySchema sample_key_values = Inr a) \<and>
   (\<exists>a. noteSchema sample_note_values = Inr a) \<and>
   passwordSchema passwordDefaults =
     Inl [(Field ''appName'', Msg ''App/Platform name is required''),
          (Field ''username'', Msg ''Username/Email is required''),
          (Field ''password'', Msg ''Password is required'')] \<and>
   storeCalls (onSubmit passwordDefaults (Resolved ()) (Resolved []) (initialState (Some ''u''))) = []"
proof -
  have ok:
    "v_appName sample_values \<noteq> [] \<and> v_username sample_values \<noteq> [] \<and>
     v_password sample_values \<noteq> [] \<and> v_status sample_values = ''Active'' \<and>
     v_customFields sample_values = Some [\<lparr>cf_label = ''PIN'', cf_value = ''1234''\<rparr>]"
    "v_modelName sample_key_values \<noteq> [] \<and> v_apiKey sample_key_values \<noteq> [] \<and>
     v_keyStatus sample_key_values = ''Active'' \<and> v_customFields sample_key_values = None"
    "v_title sample_note_values \<noteq> [] \<and> v_content sample_note_values \<noteq> [] \<and>
     v_customFields sample_note_values = Some []"
    by (simp_all add: sample_values_def sample_key_values_def sample_note_values_def)
  have bad: "passwordSchema_issues passwordDefaults =
     [(Field ''appName'', Msg ''App/Platform name is required''),
      (Field ''username'', Msg ''Username/Email is required''),
      (Field ''password'', Msg ''Password is required'')]"
    by (simp add: passwordSchema_issues_def passwordDefaults_def string_min1_def enum_status_def
          customFields_optional_def)
  have none: "\<forall>a. passwordSchema passwordDefaults \<noteq> Inr a"
    using bad by (simp add: passwordSchema_def resolve_def)
  have empty: "storeCalls (initialState (Some ''u'')) = []"
    by (simp add: initialState_def)
  show ?thesis
    using ok bad none empty
      C7_validation_gates_store
        [of sample_values sample_key_values sample_note_values "Resolved ()" "Resolved []"
            "initialState (Some ''u'')"]
      C7_validation_gates_store
        [of passwordDefaults sample_key_values sample_note_values "Resolved ()" "Resolved []"
            "initialState (Some ''u'')"]
    by simp
qed



section \<open>Claims about failing store operations\<close>

lemmas handler_defs =
  fetchPasswords_def handleFormSubmit_def handleDelete_def onSubmit_def closeDialog_def
  setPasswords_def toast_def setSearchQuery_def setPlatformFilter_def
  handleEntriesPerPageChange_def clickPrevious_def clickNext_def toggleVisibility_def
  openEditDialog_def openAddDialog_def passwordSchema_def resolve_def

lemma user_step: "user (step e s) = user s"
  by (cases e)
     (auto simp: handler_defs Let_def split: option.splits Outcome.splits)

lemma passwords_step:
  "passwords (step e s) = (case delivered (user s) e of None \<Rightarrow> passwords s | Some l \<Rightarrow> l)"
proof (cases e)
  case (Fetch r)
  then show ?thesis
    by (cases r) (auto simp: handler_defs Let_def split: option.splits)
next
  case (Submit v w r)
  then show ?thesis
    by (cases w; cases r) (auto simp: handler_defs Let_def split: option.splits)
next
  case (Delete i w r)
  then show ?thesis
    by (cases w; cases r) (auto simp: handler_defs Let_def split: option.splits)
qed (simp_all add: handler_defs)

lemma passwords_run: "passwords (run es s) = lastFetched (user s) (passwords s) es"
proof (induction es arbitrary: s)
  case Nil
  show ?case by (simp add: run_def)
next
  case (Cons e es)
  have "passwords (run (e # es) s) = passwords (run es (step e s))"
    by (simp add: run_def)
  also have "\<dots> = lastFetched (user (step e s)) (passwords (step e s)) es"
    by (rule Cons.IH)
  also have "\<dots> = lastFetched (user s) (passwords s) (e # es)"
    by (simp add: user_step passwords_step)
  finally show ?case .
qed

text \<open>
  C8.  When a store operation of the password manager fails, nothing of the state changes
  but what reports the failure: a rejected listing appends one destructive toast and
  clears the loading flag; a rejected create, update or delete appends one destructive
  toast, and no listing follows.  The list of records, the filters and the page stay as
  they were, also when the listing that follows a successful write is rejected.  Over any
  run of the manager, the list held is the one delivered by the last listing that
  succeeded, or the initial list when none has.
\<close>

theorem C8_failure_keeps_last_list:
  assumes "user s = Some uid"
  shows
    "fetchPasswords Rejected s =
       s\<lparr>isLoading := False,
         toasts := toasts s @ [errorToast ''Failed to fetch passwords.''],
         storeCalls := storeCalls s @ [GetDocs uid]\<rparr> \<and>
     handleFormSubmit values Rejected r s =
       s\<lparr>toasts := toasts s @ [errorToast ''Failed to save password.''],
         storeCalls := storeCalls s @
           [case editingPassword s of
              None \<Rightarrow> AddDoc uid (dataToSave values)
            | Some e \<Rightarrow> UpdateDoc uid (item_id e) (dataToSave values)]\<rparr> \<and>
     handleDelete i Rejected r s =
       s\<lparr>toasts := toasts s @ [errorToast ''Failed to delete password.''],
         storeCalls := storeCalls s @ [DeleteDoc uid i]\<rparr> \<and>
     passwords (handleFormSubmit values (Resolved ()) Rejected s) = passwords s \<and>
     shown (handleFormSubmit values (Resolved ()) Rejected s) = shown s \<and>
     currentPage (handleFormSubmit values (Resolved ()) Rejected s) = currentPage s \<and>
     last (toasts (handleFormSubmit values (Resolved ()) Rejected s)) =
       errorToast ''Failed to fetch passwords.'' \<and>
     passwords (handleDelete i (Resolved ()) Rejected s) = passwords s \<and>
     shown (handleDelete i (Resolved ()) Rejected s) = shown s \<and>
     currentPage (handleDelete i (Resolved ()) Rejected s) = currentPage s \<and>
     last (toasts (handleDelete i (Resolved ()) Rejected s)) =
       errorToast ''Failed to fetch passwords.'' \<and>
     shown (fetchPasswords Rejected s) = shown s \<and>
     passwords (run es s) = lastFetched (user s) (passwords s) es"
proof -
  have fetch: "fetchPasswords Rejected s =
       s\<lparr>isLoading := False,
         toasts := toasts s @ [errorToast ''Failed to fetch passwords.''],
         storeCalls := storeCalls s @ [GetDocs uid]\<rparr>"
    using assms by (simp add: fetchPasswords_def toast_def Let_def)
  have save: "handleFormSubmit values Rejected r s =
       s\<lparr>toasts := toasts s @ [errorToast ''Failed to save password.''],
         storeCalls := storeCalls s @
           [case editingPassword s of
              None \<Rightarrow> AddDoc uid (dataToSave values)
            | Some e \<Rightarrow> UpdateDoc uid (item_id e) (dataToSave values)]\<rparr>"
    using assms by (cases "editingPassword s") (simp_all add: handleFormSubmit_def toast_def Let_def)
  have del: "handleDelete i Rejected r s =
       s\<lparr>toasts := toasts s @ [errorToast ''Failed to delete password.''],
         storeCalls := storeCalls s @ [DeleteDoc uid i]\<rparr>"
    using assms by (simp add: handleDelete_def toast_def Let_def)
  have relist_save:
    "passwords (handleFormSubmit values (Resolved ()) Rejected s) = passwords s"
    "shown (handleFormSubmit values (Resolved ()) Rejected s) = shown s"
    "currentPage (handleFormSubmit values (Resolved ()) Rejected s) = currentPage s"
    "last (toasts (handleFormSubmit values (Resolved ()) Rejected s)) =
       errorToast ''Failed to fetch passwords.''"
    using assms
    by (cases "editingPassword s";
        simp add: handleFormSubmit_def fetchPasswords_def closeDialog_def toast_def Let_def
          shown_def)+
  have relist_del:
    "passwords (handleDelete i (Resolved ()) Rejected s) = passwords s"
    "shown (handleDelete i (Resolved ()) Rejected s) = shown s"
    "currentPage (handleDelete i (Resolved ()) Rejected s) = currentPage s"
    "last (toasts (handleDelete i (Resolved ()) Rejected s)) =
       errorToast ''Failed to fetch passwords.''"
    using assms
    by (simp_all add: handleDelete_def fetchPasswords_def toast_def Let_def shown_def)
  have same: "shown (fetchPasswords Rejected s) = shown s"
    by (simp add: fetch shown_def)
  show ?thesis
    using fetch save del relist_save relist_del same passwords_run [of es s]
    by (simp only: simp_thms)
qed

theorem C8_witness:
  "user (setPasswords [sample_password] (initialState (Some ''u''))) = Some ''u'' \<and>
   passwords (fetchPasswords Rejected (setPasswords [sample_password] (initialState (Some ''u''))))
     = [sample_password] \<and>
   passwords (run [Fetch (Resolved [sample_password]), Delete ''p1'' Rejected (Resolved []),
                   Submit sample_values (Resolved ()) Rejected, Fetch Rejected]
                (initialState (Some ''u''))) = [sample_password]"
proof -
  let ?s = "setPasswords [sample_password] (initialState (Some ''u''))"
  have u: "user ?s = Some ''u''"
    by (simp add: setPasswords_def initialState_def)
  have u0: "user (initialState (Some ''u'')) = Some ''u''"
    by (simp add: initialState_def)
  have ok: "passwordSchema_issues sample_values = []"
    by (simp add: passwordSchema_issues_def sample_values_def string_min1_def enum_status_def
          customFields_optional_def)
  have p: "passwords ?s = [sample_password]"
    by (simp add: setPasswords_def)
  have p0: "passwords (initialState (Some ''u'')) = []"
    by (simp add: initialState_def)
  show ?thesis
    using u p ok p0
      C8_failure_keeps_last_list [OF u, of sample_values "Resolved []" "''p1''" "[]"]
      C8_failure_keeps_last_list [OF u0, of sample_values "Resolved []" "''p1''"
        "[Fetch (Resolved [sample_password]), Delete ''p1'' Rejected (Resolved []),
          Submit sample_values (Resolved ()) Rejected, Fetch Rejected]"]
    by (simp add: u0)
qed



section \<open>Claims about the dashboard rankings\<close>

lemma foldl_nested:
  "foldl (\<lambda>tbl x. foldl f tbl (g x)) a xs = foldl f a (concat (map g xs))"
  by (induction xs arbitrary: a) simp_all

lemma allTags_flat:
  "allTags ks ps ns = foldl (\<lambda>tbl tag. increment tag tbl) [] (tagOccurrences ks ps ns)"
  by (simp add: allTags_def tagOccurrences_def foldl_nested comp_def)

lemma allPlatforms_flat:
  "allPlatforms ps = foldl (\<lambda>tbl name. increment name tbl) [] (map appName ps)"
  by (simp add: allPlatforms_def foldl_map)

lemma firstSeen_snoc:
  "firstSeen (xs @ [k]) = (if k \<in> set xs then firstSeen xs else firstSeen xs @ [k])"
  by (simp add: firstSeen_def)

lemma distinct_firstSeen: "distinct (firstSeen xs)"
  by (simp add: firstSeen_def)

lemma set_firstSeen: "set (firstSeen xs) = set xs"
  by (simp add: firstSeen_def)

lemma increment_fresh:
  "k \<notin> set names \<Longrightarrow>
   increment k (map (\<lambda>x. (x, c x)) names) = map (\<lambda>x. (x, c x)) names @ [(k, 1)]"
  by (induction names) auto

lemma increment_known:
  "k \<in> set names \<Longrightarrow> distinct names \<Longrightarrow>
   increment k (map (\<lambda>x. (x, c x)) names) =
     map (\<lambda>x. (x, if x = k then c x + 1 else c x)) names"
proof (induction names)
  case Nil
  then show ?case by simp
next
  case (Cons y ys)
  show ?case
  proof (cases "y = k")
    case True
    then have "k \<notin> set ys" using Cons.prems by simp
    then have "map (\<lambda>x. (x, if x = k then c x + 1 else c x)) ys = map (\<lambda>x. (x, c x)) ys"
      by (intro map_cong) auto
    then show ?thesis using True by simp
  next
    case False
    then show ?thesis using Cons by simp
  qed
qed

lemma counted:
  "foldl (\<lambda>tbl k. increment k tbl) [] occ = frequencies occ (firstSeen occ)"
proof (induction occ rule: rev_induct)
  case Nil
  show ?case by (simp add: frequencies_def firstSeen_def)
next
  case (snoc k occ)
  have step: "foldl (\<lambda>tbl k. increment k tbl) [] (occ @ [k]) =
      increment k (map (\<lambda>x. (x, count_list occ x)) (firstSeen occ))"
    using snoc.IH by (simp add: frequencies_def)
  show ?case
  proof (cases "k \<in> set occ")
    case True
    then have "increment k (map (\<lambda>x. (x, count_list occ x)) (firstSeen occ)) =
        map (\<lambda>x. (x, if x = k then count_list occ x + 1 else count_list occ x)) (firstSeen occ)"
      by (intro increment_known) (simp_all add: set_firstSeen distinct_firstSeen)
    also have "\<dots> = frequencies (occ @ [k]) (firstSeen (occ @ [k]))"
      using True by (simp add: frequencies_def firstSeen_snoc)
    finally show ?thesis using step by simp
  next
    case False
    then have "increment k (map (\<lambda>x. (x, count_list occ x)) (firstSeen occ)) =
        map (\<lambda>x. (x, count_list occ x)) (firstSeen occ) @ [(k, 1)]"
      by (intro increment_fresh) (simp add: set_firstSeen)
    also have "\<dots> = frequencies (occ @ [k]) (firstSeen (occ @ [k]))"
      using False by (auto simp: frequencies_def firstSeen_snoc set_firstSeen)
    finally show ?thesis using step by simp
  qed
qed

lemma insort_key_map:
  "insort_key f (g x) (map g xs) = map g (insort_key (\<lambda>y. f (g y)) x xs)"
  by (induction xs) simp_all

lemma sort_key_map:
  "sort_key f (map g xs) = map g (sort_key (\<lambda>y. f (g y)) xs)"
  by (induction xs) (simp_all add: insort_key_map)

lemma enumerationOrder_frequencies:
  "Object_entries (frequencies occ names) = frequencies occ (enumerationOrder (\<lambda>x. x) names)"
  by (simp add: Object_entries_def enumerationOrder_def frequencies_def filter_map comp_def
        sort_key_map)

lemma enumerationOrder_no_index:
  "\<forall>x \<in> set names. arrayIndex x = None \<Longrightarrow> enumerationOrder (\<lambda>x. x) names = names"
proof -
  assume a: "\<forall>x \<in> set names. arrayIndex x = None"
  then have "filter (\<lambda>e. arrayIndex e \<noteq> None) names = []"
    by (simp add: filter_empty_conv)
  moreover from a have "filter (\<lambda>e. arrayIndex e = None) names = names"
    by (simp add: filter_id_conv)
  ultimately show ?thesis by (simp add: enumerationOrder_def)
qed

lemma chartData_counted:
  "chartData (foldl (\<lambda>tbl k. increment k tbl) [] occ) =
     top5 (frequencies occ (enumerationOrder (\<lambda>x. x) (firstSeen occ)))"
  by (simp add: chartData_def top5_def counted enumerationOrder_frequencies)

lemma top5_descending: "sorted_wrt (\<lambda>a b. snd b \<le> snd a) (top5 es)"
proof -
  have "sorted (map (\<lambda>e. - int (snd e)) (sort_key (\<lambda>e. - int (snd e)) es))"
    by (rule sorted_sort_key)
  then have "sorted_wrt (\<lambda>a b. snd b \<le> snd a) (sort_key (\<lambda>e. - int (snd e)) es)"
    by (simp add: sorted_wrt_map)
  then show ?thesis
    unfolding top5_def by (rule sorted_wrt_take)
qed

lemma top5_length: "length (top5 es) \<le> 5"
  by (simp add: top5_def)



lemmas ranking_eval =
  tagChartData_def platformChartData_def chartData_def allTags_def allPlatforms_def tagsOf_def
  Object_entries_def enumerationOrder_def arrayIndex_def indexValue_def isDigit_def
  digitsValue_def spec_ranking_def top5_def frequencies_def firstSeen_def tagOccurrences_def

text \<open>
  C9, as amended.  For every triple of loaded lists whose tags and platform names are
  not names of properties that an object literal inherits, the dashboard reports the five
  most frequent tags, counted over the three kinds, and the five most frequent platforms,
  counted over the password records, by descending frequency.  Ties are left in the order
  in which the frequency table lists its keys: keys that are array indices (canonical
  decimal numbers) first, in ascending numeric order, then the other keys in the order in
  which they were first met.  When no tag (no platform) is such a number, ties are in
  first-met order.  The rankings are functions of the three lists alone.
\<close>

theorem C9_top5_rankings:
  assumes "set (tagOccurrences ks ps ns) \<inter> set inheritedNames = {}"
    and "set (map appName ps) \<inter> set inheritedNames = {}"
  shows
    "tagChartData ks ps ns =
       top5 (frequencies (tagOccurrences ks ps ns)
               (enumerationOrder (\<lambda>x. x) (firstSeen (tagOccurrences ks ps ns)))) \<and>
     platformChartData ps =
       top5 (frequencies (map appName ps)
               (enumerationOrder (\<lambda>x. x) (firstSeen (map appName ps)))) \<and>
     ((\<forall>t \<in> set (tagOccurrences ks ps ns). arrayIndex t = None) \<longrightarrow>
        tagChartData ks ps ns = spec_ranking (tagOccurrences ks ps ns)) \<and>
     ((\<forall>p \<in> set ps. arrayIndex (appName p) = None) \<longrightarrow>
        platformChartData ps = spec_ranking (map appName ps)) \<and>
     sorted_wrt (\<lambda>a b. snd b \<le> snd a) (tagChartData ks ps ns) \<and>
     sorted_wrt (\<lambda>a b. snd b \<le> snd a) (platformChartData ps) \<and>
     length (tagChartData ks ps ns) \<le> 5 \<and> length (platformChartData ps) \<le> 5"
proof -
  have t: "tagChartData ks ps ns =
       top5 (frequencies (tagOccurrences ks ps ns)
               (enumerationOrder (\<lambda>x. x) (firstSeen (tagOccurrences ks ps ns))))"
    by (simp add: tagChartData_def allTags_flat chartData_counted)
  have p: "platformChartData ps =
       top5 (frequencies (map appName ps)
               (enumerationOrder (\<lambda>x. x) (firstSeen (map appName ps))))"
    by (simp add: platformChartData_def allPlatforms_flat chartData_counted)
  have t': "tagChartData ks ps ns = spec_ranking (tagOccurrences ks ps ns)"
    if "\<forall>t \<in> set (tagOccurrences ks ps ns). arrayIndex t = None"
  proof -
    from that have "\<forall>x \<in> set (firstSeen (tagOccurrences ks ps ns)). arrayIndex x = None"
      by (simp add: set_firstSeen)
    then show ?thesis
      by (simp add: t spec_ranking_def enumerationOrder_no_index)
  qed
  have p': "platformChartData ps = spec_ranking (map appName ps)"
    if "\<forall>p \<in> set ps. arrayIndex (appName p) = None"
  proof -
    from that have "\<forall>x \<in> set (firstSeen (map appName ps)). arrayIndex x = None"
      by (simp add: set_firstSeen)
    then show ?thesis
      by (simp add: p spec_ranking_def enumerationOrder_no_index)
  qed
  have sorted:
    "sorted_wrt (\<lambda>a b. snd b \<le> snd a) (tagChartData ks ps ns)"
    "sorted_wrt (\<lambda>a b. snd b \<le> snd a) (platformChartData ps)"
    by (simp_all only: t p top5_descending)
  have short: "length (tagChartData ks ps ns) \<le> 5" "length (platformChartData ps) \<le> 5"
    by (simp_all only: t p top5_length)
  show ?thesis
    using t p t' p' sorted short by blast
qed

theorem C9_witness:
  "set (tagOccurrences [sample_key, sample_key] [] [sample_note]) \<inter> set inheritedNames = {} \<and>
   set (map appName []) \<inter> set inheritedNames = {} \<and>
   tagChartData [sample_key, sample_key] [] [sample_note] = [(''ai'', 2), (''prod'', 2)] \<and>
   spec_ranking (tagOccurrences [sample_key, sample_key] [] [sample_note]) =
     [(''ai'', 2), (''prod'', 2)] \<and>
   platformChartData [] = []"
proof -
  have occ: "tagOccurrences [sample_key, sample_key] [] [sample_note] =
      [''ai'', ''prod'', ''ai'', ''prod'']"
    by (simp add: tagOccurrences_def tagsOf_def sample_key_def sample_note_def)
  have a: "set (tagOccurrences [sample_key, sample_key] [] [sample_note]) \<inter> set inheritedNames = {}"
    unfolding occ by (simp add: inheritedNames_def)
  have b: "set (map appName []) \<inter> set inheritedNames = {}"
    by simp
  have c: "\<forall>t \<in> set (tagOccurrences [sample_key, sample_key] [] [sample_note]). arrayIndex t = None"
    unfolding occ by (simp add: arrayIndex_def isDigit_def)
  have d: "spec_ranking [''ai'', ''prod'', ''ai'', ''prod''] = [(''ai'', 2), (''prod'', 2)]"
    by (simp add: spec_ranking_def top5_def frequencies_def firstSeen_def)
  have e: "platformChartData [] = []"
    by (simp add: ranking_eval)
  have "tagChartData [sample_key, sample_key] [] [sample_note] =
      spec_ranking (tagOccurrences [sample_key, sample_key] [] [sample_note])"
    using C9_top5_rankings [OF a b] c by blast
  then have t: "tagChartData [sample_key, sample_key] [] [sample_note] = [(''ai'', 2), (''prod'', 2)]"
    using d by (simp only: occ)
  show ?thesis
    using a b t d e by (simp only: occ simp_thms)
qed

text \<open>
  The claim as first stated breaks ties by first-met order whatever the names.  A single
  password record tagged \<^verbatim>\<open>work\<close> and then \<^verbatim>\<open>2024\<close> gives both tags the frequency 1;
  the dashboard lists \<^verbatim>\<open>2024\<close> first.
\<close>

theorem C9_counterexample:
  "set (tagOccurrences [] [sample_password] []) \<inter> set inheritedNames = {} \<and>
   tagOccurrences [] [sample_password] [] = [''work'', ''2024''] \<and>
   spec_ranking (tagOccurrences [] [sample_password] []) = [(''work'', 1), (''2024'', 1)] \<and>
   tagChartData [] [sample_password] [] = [(''2024'', 1), (''work'', 1)]"
proof -
  have occ: "tagOccurrences [] [sample_password] [] = [''work'', ''2024'']"
    by (simp add: tagOccurrences_def tagsOf_def sample_password_def)
  have a: "set [''work'', ''2024''] \<inter> set inheritedNames = {}"
    by (simp add: inheritedNames_def)
  have b: "spec_ranking [''work'', ''2024''] = [(''work'', 1), (''2024'', 1)]"
    by (simp add: spec_ranking_def top5_def frequencies_def firstSeen_def)
  have c: "tagChartData [] [sample_password] [] = [(''2024'', 1), (''work'', 1)]"
    by (simp add: ranking_eval sample_password_def)
  show ?thesis using occ a b c by simp
qed



section \<open>Claims about masked secrets\<close>

lemma replicate_12: "replicate 12 x = [x, x, x, x, x, x, x, x, x, x, x, x]"
  by (simp add: numeral_eq_Suc)

lemma repeat_12: "repeat s 12 = s @ s @ s @ s @ s @ s @ s @ s @ s @ s @ s @ s"
  by (simp add: repeat_def replicate_12)

lemma repeat_bullet: "repeat [8226] 12 = replicate 12 bullet"
  by (simp add: repeat_12 replicate_12 bullet_def)

lemma hidden_password_cell:
  "\<not> visible (item_id p) \<Longrightarrow> passwordCell visible p = replicate 12 bullet"
  by (simp add: passwordCell_def repeat_bullet)

lemma hidden_cells_ignore_secret:
  "\<not> visible (item_id p) \<Longrightarrow>
     passwordCell visible (p\<lparr>password := x\<rparr>) = passwordCell visible p"
  "\<not> visible (item_id k) \<Longrightarrow>
     apiKeyCell visible (k\<lparr>apiKey := y\<rparr>) = apiKeyCell visible k"
  by (simp_all add: passwordCell_def apiKeyCell_def)

text \<open>
  C10.  A record whose visibility toggle is off shows twelve bullets in its secret column,
  whatever the secret.  The password table does so.  The API key table repeats twelve
  times a literal of three code points (U+00E2, U+20AC, U+00A2, the bytes of a bullet read
  in a one-byte encoding): its hidden cell holds 36 code points, none of them a bullet.
  It does not depend on the secret either.
\<close>

theorem C10_api_key_mask_is_not_bullets:
  "passwordCell noneVisible sample_password = replicate 12 bullet \<and>
   apiKeyCell noneVisible sample_key =
     [226, 8364, 162, 226, 8364, 162, 226, 8364, 162, 226, 8364, 162,
      226, 8364, 162, 226, 8364, 162, 226, 8364, 162, 226, 8364, 162,
      226, 8364, 162, 226, 8364, 162, 226, 8364, 162, 226, 8364, 162] \<and>
   length (apiKeyCell noneVisible sample_key) = 36 \<and>
   bullet \<notin> set (apiKeyCell noneVisible sample_key) \<and>
   apiKeyCell noneVisible sample_key \<noteq> replicate 12 bullet"
  by (simp add: passwordCell_def apiKeyCell_def noneVisible_def repeat_12 replicate_12
        bullet_def)


end
